theory Spec2Isabelle
  imports Main "HOL-Library.Word" "HOL-Library.Monad_Syntax"
begin

section \<open>JavaScript strings\<close>

text \<open>
  A JavaScript string is a sequence of 16-bit UTF-16 code units; \<open>length\<close>,
  \<open>===\<close>, \<open>trim\<close> and a regular expression without the \<open>u\<close> flag all work on
  code units. \<open>js\<close> writes an ASCII literal of the source as such a sequence.
\<close>

type_synonym cu = "16 word"
type_synonym jsstring = "cu list"

definition js :: "string \<Rightarrow> jsstring" where
  "js s = map of_char s"

text \<open>
  The characters that \<open>\s\<close> matches and that \<open>String.prototype.trim\<close> strips are the
  same set in ECMAScript: WhiteSpace (TAB, VT, FF, SP, NBSP, ZWNBSP and the Unicode
  space separators) and LineTerminator (LF, CR, LS, PS).
\<close>

definition isWhiteSpace :: "cu \<Rightarrow> bool" where
  "isWhiteSpace c \<longleftrightarrow>
     c = 0x0009 \<or> c = 0x000A \<or> c = 0x000B \<or> c = 0x000C \<or> c = 0x000D \<or>
     c = 0x0020 \<or> c = 0x00A0 \<or> c = 0x1680 \<or> (0x2000 \<le> c \<and> c \<le> 0x200A) \<or>
     c = 0x2028 \<or> c = 0x2029 \<or> c = 0x202F \<or> c = 0x205F \<or> c = 0x3000 \<or>
     c = 0xFEFF"

definition trim :: "jsstring \<Rightarrow> jsstring" where
  "trim s = rev (dropWhile isWhiteSpace (rev (dropWhile isWhiteSpace s)))"

section \<open>Regular expressions\<close>

text \<open>
  The patterns of \<open>app.js\<close> use character classes, concatenation, \<open>+\<close> and the
  anchors \<open>^\<close> and \<open>$\<close>; none has a group, a back reference or a look-around, so
  \<open>RegExp.prototype.test\<close> answers membership in a regular language. \<open>accepts\<close> is
  that language, \<open>matches\<close> decides it by derivatives.
\<close>

datatype rexp =
    Zero
  | One
  | Atom "cu \<Rightarrow> bool"
  | Alt rexp rexp
  | Seq rexp rexp
  | Star rexp

definition Plus :: "rexp \<Rightarrow> rexp" where
  "Plus r = Seq r (Star r)"

inductive accepts :: "rexp \<Rightarrow> jsstring \<Rightarrow> bool" where
  acc_One: "accepts One []"
| acc_Atom: "p c \<Longrightarrow> accepts (Atom p) [c]"
| acc_AltL: "accepts r w \<Longrightarrow> accepts (Alt r s) w"
| acc_AltR: "accepts s w \<Longrightarrow> accepts (Alt r s) w"
| acc_Seq: "accepts r u \<Longrightarrow> accepts s v \<Longrightarrow> accepts (Seq r s) (u @ v)"
| acc_StarNil: "accepts (Star r) []"
| acc_StarCons: "accepts r u \<Longrightarrow> accepts (Star r) v \<Longrightarrow> accepts (Star r) (u @ v)"

fun nullable :: "rexp \<Rightarrow> bool" where
  "nullable Zero = False"
| "nullable One = True"
| "nullable (Atom p) = False"
| "nullable (Alt r s) = (nullable r \<or> nullable s)"
| "nullable (Seq r s) = (nullable r \<and> nullable s)"
| "nullable (Star r) = True"

fun deriv :: "cu \<Rightarrow> rexp \<Rightarrow> rexp" where
  "deriv c Zero = Zero"
| "deriv c One = Zero"
| "deriv c (Atom p) = (if p c then One else Zero)"
| "deriv c (Alt r s) = Alt (deriv c r) (deriv c s)"
| "deriv c (Seq r s) =
     (if nullable r then Alt (Seq (deriv c r) s) (deriv c s) else Seq (deriv c r) s)"
| "deriv c (Star r) = Seq (deriv c r) (Star r)"

fun matches :: "rexp \<Rightarrow> jsstring \<Rightarrow> bool" where
  "matches r [] = nullable r"
| "matches r (c # w) = matches (deriv c r) w"

text \<open>\<open>/^r$/.test(s)\<close>: the whole of \<open>s\<close> matches \<open>r\<close>.\<close>

definition test_anchored :: "rexp \<Rightarrow> jsstring \<Rightarrow> bool" where
  "test_anchored r s = matches r s"

text \<open>\<open>/r/.test(s)\<close>: some substring of \<open>s\<close> matches \<open>r\<close>.\<close>

definition test_search :: "rexp \<Rightarrow> jsstring \<Rightarrow> bool" where
  "test_search r s = matches (Seq (Star (Atom (\<lambda>c. True))) (Seq r (Star (Atom (\<lambda>c. True))))) s"

section \<open>Utility functions of app.js\<close>

text \<open>\<open>[^\s@]\<close>\<close>

definition notSpaceAt :: "cu \<Rightarrow> bool" where
  "notSpaceAt c \<longleftrightarrow> \<not> isWhiteSpace c \<and> c \<noteq> of_char CHR ''@''"

text \<open>\<open>/^[^\s@]+@[^\s@]+\.[^\s@]+$/\<close>\<close>

definition emailRegex :: rexp where
  "emailRegex =
     Seq (Plus (Atom notSpaceAt))
       (Seq (Atom (\<lambda>c. c = of_char CHR ''@''))
         (Seq (Plus (Atom notSpaceAt))
           (Seq (Atom (\<lambda>c. c = of_char CHR ''.''))
             (Plus (Atom notSpaceAt)))))"

definition validateEmail :: "jsstring \<Rightarrow> bool" where
  "validateEmail email = test_anchored emailRegex email"

datatype strength = Weak | Medium | Strong

text \<open>The classes \<open>[a-z]\<close>, \<open>[A-Z]\<close>, \<open>[0-9]\<close> and \<open>[^a-zA-Z0-9]\<close>.\<close>

definition isLower :: "cu \<Rightarrow> bool" where
  "isLower c \<longleftrightarrow> of_char CHR ''a'' \<le> c \<and> c \<le> of_char CHR ''z''"

definition isUpper :: "cu \<Rightarrow> bool" where
  "isUpper c \<longleftrightarrow> of_char CHR ''A'' \<le> c \<and> c \<le> of_char CHR ''Z''"

definition isDigit :: "cu \<Rightarrow> bool" where
  "isDigit c \<longleftrightarrow> of_char CHR ''0'' \<le> c \<and> c \<le> of_char CHR ''9''"

definition isSymbol :: "cu \<Rightarrow> bool" where
  "isSymbol c \<longleftrightarrow> \<not> (isLower c \<or> isUpper c \<or> isDigit c)"

text \<open>
  \<open>calculatePasswordStrength\<close>: the early return on a short password, then the counter
  \<open>strength\<close> incremented once per test, then the two thresholds.
\<close>

definition calculatePasswordStrength :: "jsstring \<Rightarrow> strength" where
  "calculatePasswordStrength password =
     (if length password < 6 then Weak
      else
        let strength0 = (0::nat);
            strength1 = (if length password \<ge> 8 then strength0 + 1 else strength0);
            strength2 = (if test_search (Atom isLower) password then strength1 + 1 else strength1);
            strength3 = (if test_search (Atom isUpper) password then strength2 + 1 else strength2);
            strength4 = (if test_search (Atom isDigit) password then strength3 + 1 else strength3);
            strength5 = (if test_search (Atom isSymbol) password then strength4 + 1 else strength4)
        in if strength5 \<le> 2 then Weak
           else if strength5 \<le> 4 then Medium
           else Strong)"

text \<open>
  The score as the specification words it: the number of the five criteria that hold.
\<close>

definition criteria_score :: "jsstring \<Rightarrow> nat" where
  "criteria_score password =
     of_bool (length password \<ge> 8) +
     of_bool (\<exists>c \<in> set password. isLower c) +
     of_bool (\<exists>c \<in> set password. isUpper c) +
     of_bool (\<exists>c \<in> set password. isDigit c) +
     of_bool (\<exists>c \<in> set password. isSymbol c)"

section \<open>User records and their JSON text\<close>

text \<open>
  A user record as \<open>RegisterPage\<close> builds it: six string properties, in the order
  \<open>id\<close>, \<open>firstName\<close>, \<open>lastName\<close>, \<open>email\<close>, \<open>password\<close>, \<open>memberSince\<close>.
  The property \<open>id\<close> is the field \<open>uid\<close> here.
\<close>

record user =
  uid :: jsstring
  firstName :: jsstring
  lastName :: jsstring
  email :: jsstring
  password :: jsstring
  memberSince :: jsstring

definition hexDigit :: "nat \<Rightarrow> cu" where
  "hexDigit n = (if n < 10 then of_nat (48 + n) else of_nat (87 + n))"

definition UnicodeEscape :: "cu \<Rightarrow> jsstring" where
  "UnicodeEscape c =
     (let n = unat c
      in [0x5C, of_char CHR ''u'', hexDigit (n div 4096), hexDigit (n div 256 mod 16),
          hexDigit (n div 16 mod 16), hexDigit (n mod 16)])"

definition isHighSurrogate :: "cu \<Rightarrow> bool" where
  "isHighSurrogate c \<longleftrightarrow> 0xD800 \<le> c \<and> c \<le> 0xDBFF"

definition isLowSurrogate :: "cu \<Rightarrow> bool" where
  "isLowSurrogate c \<longleftrightarrow> 0xDC00 \<le> c \<and> c \<le> 0xDFFF"

definition quoteUnit :: "cu \<Rightarrow> jsstring" where
  "quoteUnit c =
     (if c = 0x08 then [0x5C, of_char CHR ''b'']
      else if c = 0x09 then [0x5C, of_char CHR ''t'']
      else if c = 0x0A then [0x5C, of_char CHR ''n'']
      else if c = 0x0C then [0x5C, of_char CHR ''f'']
      else if c = 0x0D then [0x5C, of_char CHR ''r'']
      else if c = 0x22 then [0x5C, 0x22]
      else if c = 0x5C then [0x5C, 0x5C]
      else if c < 0x20 \<or> isHighSurrogate c \<or> isLowSurrogate c then UnicodeEscape c
      else [c])"

fun quoteChars :: "jsstring \<Rightarrow> jsstring" where
  "quoteChars [] = []"
| "quoteChars (c # cs) =
     (case cs of
        d # ds \<Rightarrow>
          if isHighSurrogate c \<and> isLowSurrogate d then c # d # quoteChars ds
          else quoteUnit c @ quoteChars cs
      | [] \<Rightarrow> quoteUnit c @ quoteChars cs)"

definition QuoteJSONString :: "jsstring \<Rightarrow> jsstring" where
  "QuoteJSONString s = 0x22 # quoteChars s @ [0x22]"

definition hexValue :: "cu \<Rightarrow> nat option" where
  "hexValue c =
     (if of_char CHR ''0'' \<le> c \<and> c \<le> of_char CHR ''9'' then Some (unat c - 48)
      else if of_char CHR ''a'' \<le> c \<and> c \<le> of_char CHR ''f'' then Some (unat c - 87)
      else if of_char CHR ''A'' \<le> c \<and> c \<le> of_char CHR ''F'' then Some (unat c - 55)
      else None)"

definition hex4 :: "cu \<Rightarrow> cu \<Rightarrow> cu \<Rightarrow> cu \<Rightarrow> cu option" where
  "hex4 h1 h2 h3 h4 =
     (case (hexValue h1, hexValue h2, hexValue h3, hexValue h4) of
        (Some a, Some b, Some c, Some d) \<Rightarrow> Some (of_nat (((a * 16 + b) * 16 + c) * 16 + d))
      | _ \<Rightarrow> None)"

definition simpleEscape :: "cu \<Rightarrow> cu option" where
  "simpleEscape e =
     (if e = 0x22 then Some 0x22
      else if e = 0x5C then Some 0x5C
      else if e = of_char CHR ''/'' then Some (of_char CHR ''/'')
      else if e = of_char CHR ''b'' then Some 0x08
      else if e = of_char CHR ''f'' then Some 0x0C
      else if e = of_char CHR ''n'' then Some 0x0A
      else if e = of_char CHR ''r'' then Some 0x0D
      else if e = of_char CHR ''t'' then Some 0x09
      else None)"

definition consChar :: "cu \<Rightarrow> (jsstring \<times> jsstring) option \<Rightarrow> (jsstring \<times> jsstring) option" where
  "consChar c res = map_option (\<lambda>(v, rest). (c # v, rest)) res"

fun parseChars :: "jsstring \<Rightarrow> (jsstring \<times> jsstring) option" where
  "parseChars [] = None"
| "parseChars (c # cs) =
     (if c = 0x22 then Some ([], cs)
      else if c = 0x5C then
        (case cs of
           [] \<Rightarrow> None
         | e # es \<Rightarrow>
             if e = of_char CHR ''u'' then
               (case es of
                  h1 # h2 # h3 # h4 # rest \<Rightarrow>
                    (case hex4 h1 h2 h3 h4 of
                       None \<Rightarrow> None
                     | Some u \<Rightarrow> consChar u (parseChars rest))
                | _ \<Rightarrow> None)
             else
               (case simpleEscape e of
                  None \<Rightarrow> None
                | Some u \<Rightarrow> consChar u (parseChars es)))
      else if c < 0x20 then None
      else consChar c (parseChars cs))"

definition serializeProperty :: "jsstring \<Rightarrow> jsstring \<Rightarrow> jsstring" where
  "serializeProperty key v = QuoteJSONString key @ js '':'' @ QuoteJSONString v"

definition stringifyUser :: "user \<Rightarrow> jsstring" where
  "stringifyUser u =
     js ''{'' @ serializeProperty (js ''id'') (uid u) @
     js '','' @ serializeProperty (js ''firstName'') (firstName u) @
     js '','' @ serializeProperty (js ''lastName'') (lastName u) @
     js '','' @ serializeProperty (js ''email'') (email u) @
     js '','' @ serializeProperty (js ''password'') (password u) @
     js '','' @ serializeProperty (js ''memberSince'') (memberSince u) @
     js ''}''"

fun joinComma :: "jsstring list \<Rightarrow> jsstring" where
  "joinComma [] = []"
| "joinComma [x] = x"
| "joinComma (x # y # zs) = x @ js '','' @ joinComma (y # zs)"

definition JSON_stringify :: "user list \<Rightarrow> jsstring" where
  "JSON_stringify db = js ''['' @ joinComma (map stringifyUser db) @ js '']''"

definition expect :: "cu \<Rightarrow> jsstring \<Rightarrow> jsstring option" where
  "expect c s = (case s of [] \<Rightarrow> None | d # rest \<Rightarrow> if d = c then Some rest else None)"

definition parseJSONString :: "jsstring \<Rightarrow> (jsstring \<times> jsstring) option" where
  "parseJSONString s = (case s of [] \<Rightarrow> None | c # cs \<Rightarrow> if c = 0x22 then parseChars cs else None)"

definition parseProperty :: "jsstring \<Rightarrow> jsstring \<Rightarrow> (jsstring \<times> jsstring) option" where
  "parseProperty key s =
     do {
       (k, r) \<leftarrow> parseJSONString s;
       if k = key then do { r' \<leftarrow> expect (of_char CHR '':'') r; parseJSONString r' } else None
     }"

definition parseUser :: "jsstring \<Rightarrow> (user \<times> jsstring) option" where
  "parseUser s =
     do {
       r \<leftarrow> expect (of_char CHR ''{'') s;
       (v1, r) \<leftarrow> parseProperty (js ''id'') r;
       r \<leftarrow> expect (of_char CHR '','') r;
       (v2, r) \<leftarrow> parseProperty (js ''firstName'') r;
       r \<leftarrow> expect (of_char CHR '','') r;
       (v3, r) \<leftarrow> parseProperty (js ''lastName'') r;
       r \<leftarrow> expect (of_char CHR '','') r;
       (v4, r) \<leftarrow> parseProperty (js ''email'') r;
       r \<leftarrow> expect (of_char CHR '','') r;
       (v5, r) \<leftarrow> parseProperty (js ''password'') r;
       r \<leftarrow> expect (of_char CHR '','') r;
       (v6, r) \<leftarrow> parseProperty (js ''memberSince'') r;
       r \<leftarrow> expect (of_char CHR ''}'') r;
       Some (\<lparr>uid = v1, firstName = v2, lastName = v3, email = v4, password = v5,
               memberSince = v6\<rparr>, r)
     }"


text \<open>
  The parsers consume input: what they leave is shorter than what they were given. The
  loop over the elements of the array terminates for that reason.
\<close>

lemma consChar_Some: "consChar u x = Some (v, r) \<Longrightarrow> \<exists>v'. x = Some (v', r)"
  by (auto simp: consChar_def)

lemma parseChars_length: "parseChars s = Some (v, r) \<Longrightarrow> length r < length s"
proof (induction s arbitrary: v r rule: length_induct)
  case (1 s)
  have step: "length r < n"
    if "consChar u (parseChars t) = Some (v, r)" "length t < length s" "length t < n" for u t n
  proof -
    from that(1) obtain v' where "parseChars t = Some (v', r)"
      by (auto dest: consChar_Some)
    with "1.IH" that(2) have "length r < length t" by blast
    with that(3) show ?thesis by simp
  qed
  show ?case
  proof (cases s)
    case Nil
    with 1 show ?thesis by simp
  next
    case (Cons c cs)
    from "1.prems" Cons show ?thesis
      by (auto split: if_splits list.splits option.splits intro: step)
  qed
qed

lemma expect_length: "expect c s = Some r \<Longrightarrow> length s = Suc (length r)"
  by (auto simp: expect_def split: list.splits if_splits)

lemma parseJSONString_length: "parseJSONString s = Some (v, r) \<Longrightarrow> length r < length s"
  by (auto simp: parseJSONString_def split: list.splits if_splits dest: parseChars_length)

lemma parseProperty_length: "parseProperty key s = Some (v, r) \<Longrightarrow> length r < length s"
  by (fastforce simp: parseProperty_def split: bind_splits if_splits
      dest: parseJSONString_length expect_length)

lemma parseUser_length: "parseUser s = Some (u, r) \<Longrightarrow> length r < length s"
  unfolding parseUser_def
  by (fastforce split: bind_splits dest: parseProperty_length expect_length)

function parseElements :: "jsstring \<Rightarrow> user list option" where
  "parseElements s =
     (case parseUser s of
        None \<Rightarrow> None
      | Some (u, r) \<Rightarrow>
          (case r of
             [] \<Rightarrow> None
           | c # r' \<Rightarrow>
               if c = of_char CHR '','' then map_option (Cons u) (parseElements r')
               else if c = of_char CHR '']'' \<and> r' = [] then Some [u]
               else None))"
  by pat_completeness auto
termination
proof (relation "measure length")
  show "wf (measure length)" by simp
next
  fix s x2 u r c r'
  assume "parseUser s = Some x2" "(u, r) = x2" "r = c # r'" "c = of_char CHR '',''"
  then have "parseUser s = Some (u, c # r')" by simp
  then have "length (c # r') < length s" by (rule parseUser_length)
  then show "(r', s) \<in> measure length" by simp
qed

declare parseElements.simps [simp del]

definition JSON_parse :: "jsstring \<Rightarrow> user list option" where
  "JSON_parse s =
     (case s of
        [] \<Rightarrow> None
      | c # r \<Rightarrow>
          if c = of_char CHR ''['' then (if r = js '']'' then Some [] else parseElements r)
          else None)"

section \<open>The account store and the pages\<close>

datatype field = FirstName | LastName | Email | Password | ConfirmPassword

datatype error =
    FieldErrors "(field \<times> string) list"
  | DuplicateEmail
  | InvalidCredentials

record app =
  userDatabase :: "user list"
  localStorage :: "jsstring option"
  currentUser :: "user option"

definition loadUserDatabase :: "jsstring option \<Rightarrow> user list option" where
  "loadUserDatabase item = (case item of None \<Rightarrow> Some [] | Some s \<Rightarrow> JSON_parse s)"

definition updateLocalStorage :: "app \<Rightarrow> app" where
  "updateLocalStorage st = st\<lparr>localStorage := Some (JSON_stringify (userDatabase st))\<rparr>"

record clock =
  Date_now :: int
  Date_toISOString :: jsstring

function digitsOf :: "int \<Rightarrow> jsstring" where
  "digitsOf n =
     (if n < 10 then [of_int (48 + n)] else digitsOf (n div 10) @ [of_int (48 + n mod 10)])"
  by pat_completeness auto
termination
  by (relation "measure nat") auto

declare digitsOf.simps [simp del]

definition Number_toString :: "int \<Rightarrow> jsstring" where
  "Number_toString i = (if i < 0 then of_char CHR ''-'' # digitsOf (- i) else digitsOf i)"

fun findIndex :: "('a \<Rightarrow> bool) \<Rightarrow> 'a list \<Rightarrow> int" where
  "findIndex P [] = - 1"
| "findIndex P (x # xs) =
     (if P x then 0 else let i = findIndex P xs in if i = - 1 then - 1 else i + 1)"

record formData =
  fd_firstName :: jsstring
  fd_lastName :: jsstring
  fd_email :: jsstring
  fd_password :: jsstring
  fd_confirmPassword :: jsstring

record editData =
  ed_firstName :: jsstring
  ed_lastName :: jsstring
  ed_email :: jsstring

definition validateForm :: "formData \<Rightarrow> (field \<times> string) list" where
  "validateForm formData =
     (if trim (fd_firstName formData) = [] then [(FirstName, ''First name is required'')] else []) @
     (if trim (fd_lastName formData) = [] then [(LastName, ''Last name is required'')] else []) @
     (if trim (fd_email formData) = [] then [(Email, ''Email is required'')]
      else if \<not> validateEmail (fd_email formData)
        then [(Email, ''Please enter a valid email address'')]
      else []) @
     (if fd_password formData = [] then [(Password, ''Password is required'')]
      else if length (fd_password formData) < 6
        then [(Password, ''Password must be at least 6 characters'')]
      else []) @
     (if fd_confirmPassword formData = []
        then [(ConfirmPassword, ''Please confirm your password'')]
      else if fd_password formData \<noteq> fd_confirmPassword formData
        then [(ConfirmPassword, ''Passwords do not match'')]
      else [])"

definition newUser :: "clock \<Rightarrow> formData \<Rightarrow> user" where
  "newUser clk formData =
     \<lparr>uid = Number_toString (Date_now clk),
      firstName = trim (fd_firstName formData),
      lastName = trim (fd_lastName formData),
      email = trim (fd_email formData),
      password = fd_password formData,
      memberSince = Date_toISOString clk\<rparr>"

definition RegisterPage_handleSubmit ::
    "clock \<Rightarrow> formData \<Rightarrow> app \<Rightarrow> (error + unit) \<times> app" where
  "RegisterPage_handleSubmit clk formData st =
     (let errors = validateForm formData in
      if errors \<noteq> [] then (Inl (FieldErrors errors), st)
      else
        case find (\<lambda>u. email u = fd_email formData) (userDatabase st) of
          Some existingUser \<Rightarrow> (Inl DuplicateEmail, st)
        | None \<Rightarrow>
            (Inr (),
             updateLocalStorage
               (st\<lparr>userDatabase := userDatabase st @ [newUser clk formData]\<rparr>)))"

definition handleLogin :: "user \<Rightarrow> app \<Rightarrow> app" where
  "handleLogin user st = st\<lparr>currentUser := Some user\<rparr>"

definition handleLogout :: "app \<Rightarrow> app" where
  "handleLogout st = st\<lparr>currentUser := None\<rparr>"

definition handleUpdateProfile :: "user \<Rightarrow> app \<Rightarrow> app" where
  "handleUpdateProfile updatedUser st = st\<lparr>currentUser := Some updatedUser\<rparr>"

definition LoginPage_handleSubmit ::
    "jsstring \<Rightarrow> jsstring \<Rightarrow> app \<Rightarrow> (error + user) \<times> app" where
  "LoginPage_handleSubmit email' password' st =
     (if \<not> validateEmail email'
        then (Inl (FieldErrors [(Email, ''Please enter a valid email address'')]), st)
      else if password' = [] then (Inl (FieldErrors [(Password, ''Password is required'')]), st)
      else
        case find (\<lambda>u. email u = email' \<and> password u = password') (userDatabase st) of
          Some user \<Rightarrow> (Inr user, handleLogin user st)
        | None \<Rightarrow> (Inl InvalidCredentials, st))"

definition validateEditForm :: "editData \<Rightarrow> (field \<times> string) list" where
  "validateEditForm editData =
     (if trim (ed_firstName editData) = [] then [(FirstName, ''First name is required'')] else []) @
     (if trim (ed_lastName editData) = [] then [(LastName, ''Last name is required'')] else []) @
     (if trim (ed_email editData) = [] then [(Email, ''Email is required'')]
      else if \<not> validateEmail (ed_email editData)
        then [(Email, ''Please enter a valid email address'')]
      else [])"

definition ProfilePage_handleSave ::
    "user \<Rightarrow> editData \<Rightarrow> app \<Rightarrow> (error + user) \<times> app" where
  "ProfilePage_handleSave user editData st =
     (let errors = validateEditForm editData in
      if errors \<noteq> [] then (Inl (FieldErrors errors), st)
      else if ed_email editData \<noteq> email user \<and>
          find (\<lambda>u. email u = ed_email editData \<and> uid u \<noteq> uid user) (userDatabase st) \<noteq> None
        then (Inl DuplicateEmail, st)
      else
        let updatedUser =
              user\<lparr>firstName := trim (ed_firstName editData),
                   lastName := trim (ed_lastName editData),
                   email := trim (ed_email editData)\<rparr>;
            userIndex = findIndex (\<lambda>u. uid u = uid user) (userDatabase st);
            st1 =
              (if userIndex \<noteq> - 1
               then updateLocalStorage
                 (st\<lparr>userDatabase := (userDatabase st)[nat userIndex := updatedUser]\<rparr>)
               else st)
        in (Inr updatedUser, handleUpdateProfile updatedUser st1))"

datatype event =
    Register clock formData
  | Login jsstring jsstring
  | Save editData
  | Logout
  | Reload

definition initial :: app where
  "initial = \<lparr>userDatabase = [], localStorage = None, currentUser = None\<rparr>"

fun step :: "app \<Rightarrow> event \<Rightarrow> app" where
  "step st (Register clk formData) = snd (RegisterPage_handleSubmit clk formData st)"
| "step st (Login email' password') = snd (LoginPage_handleSubmit email' password' st)"
| "step st (Save editData) =
     (case currentUser st of
        None \<Rightarrow> st
      | Some user \<Rightarrow> snd (ProfilePage_handleSave user editData st))"
| "step st Logout = handleLogout st"
| "step st Reload =
     (case loadUserDatabase (localStorage st) of
        None \<Rightarrow> st
      | Some db \<Rightarrow> \<lparr>userDatabase = db, localStorage = localStorage st, currentUser = None\<rparr>)"

definition run :: "event list \<Rightarrow> app" where
  "run events = foldl step initial events"

fun registerClocks :: "event list \<Rightarrow> int list" where
  "registerClocks [] = []"
| "registerClocks (Register clk formData # events) = Date_now clk # registerClocks events"
| "registerClocks (ev # events) = registerClocks events"


section \<open>Sample inputs\<close>

definition clock0 :: clock where
  "clock0 = \<lparr>Date_now = 1700000000000, Date_toISOString = js ''2023-11-14T22:13:20.000Z''\<rparr>"

definition clock1 :: clock where
  "clock1 = \<lparr>Date_now = 1700000060000, Date_toISOString = js ''2023-11-14T22:14:20.000Z''\<rparr>"

definition formAnn :: formData where
  "formAnn = \<lparr>fd_firstName = js ''Ann'', fd_lastName = js ''Lee'',
     fd_email = js ''ann@example.com'', fd_password = js ''secret1'',
     fd_confirmPassword = js ''secret1''\<rparr>"

definition formBob :: formData where
  "formBob = \<lparr>fd_firstName = js ''Bob'', fd_lastName = js ''Ray'',
     fd_email = js ''bob@example.com'', fd_password = js ''hunter22'',
     fd_confirmPassword = js ''hunter22''\<rparr>"

definition editBob :: editData where
  "editBob = \<lparr>ed_firstName = js ''Bob'', ed_lastName = js ''Ray'',
     ed_email = js ''bob@example.com''\<rparr>"

definition editBobTaken :: editData where
  "editBobTaken = \<lparr>ed_firstName = js ''Bob'', ed_lastName = js ''Ray'',
     ed_email = js ''ann@example.com''\<rparr>"

definition editRob :: editData where
  "editRob = \<lparr>ed_firstName = js '' Robert'', ed_lastName = js ''Ray '',
     ed_email = js ''rob@example.com''\<rparr>"

definition editAnn :: editData where
  "editAnn = \<lparr>ed_firstName = js ''Ann'', ed_lastName = js ''Lee'',
     ed_email = js ''ann@example.com''\<rparr>"

text \<open>Ann registers, then Bob a minute later; then Bob logs in.\<close>

definition pairRegs :: "event list" where
  "pairRegs = [Register clock0 formAnn, Register clock1 formBob]"

definition pairEvents :: "event list" where
  "pairEvents = pairRegs @ [Login (js ''bob@example.com'') (js ''hunter22'')]"

text \<open>The same, but both registrations read the same clock value.\<close>

definition twinRegs :: "event list" where
  "twinRegs = [Register clock0 formAnn, Register clock0 formBob]"

definition twinEvents :: "event list" where
  "twinEvents = twinRegs @ [Login (js ''bob@example.com'') (js ''hunter22'')]"

text \<open>A store in which two records with different ids have the same email.\<close>

definition dupAnn :: user where
  "dupAnn = \<lparr>uid = js ''1700000000000'', firstName = js ''Ann'', lastName = js ''Lee'',
     email = js ''ann@example.com'', password = js ''secret1'',
     memberSince = js ''2023-11-14T22:13:20.000Z''\<rparr>"

definition dupAmy :: user where
  "dupAmy = \<lparr>uid = js ''1700000060000'', firstName = js ''Amy'', lastName = js ''Roe'',
     email = js ''ann@example.com'', password = js ''passw0rd'',
     memberSince = js ''2023-11-14T22:14:20.000Z''\<rparr>"

definition dupStore :: app where
  "dupStore = \<lparr>userDatabase = [dupAnn, dupAmy],
     localStorage = Some (JSON_stringify [dupAnn, dupAmy]), currentUser = Some dupAnn\<rparr>"

section \<open>The derivative matcher decides the language\<close>

inductive_cases acc_ZeroE: "accepts Zero w"
inductive_cases acc_OneE: "accepts One w"
inductive_cases acc_AtomE: "accepts (Atom p) w"
inductive_cases acc_AltE: "accepts (Alt r s) w"
inductive_cases acc_SeqE: "accepts (Seq r s) w"

lemma nullable_accepts: "nullable r \<Longrightarrow> accepts r []"
proof (induction r)
  case (Seq r s)
  then have "accepts (Seq r s) ([] @ [])"
    by (intro acc_Seq) simp_all
  then show ?case by simp
qed (auto intro: accepts.intros)

lemma accepts_nil_nullable: "accepts r w \<Longrightarrow> w = [] \<Longrightarrow> nullable r"
  by (induction rule: accepts.induct) auto

lemma deriv_sound: "accepts (deriv c r) w \<Longrightarrow> accepts r (c # w)"
proof (induction r arbitrary: w)
  case (Atom p)
  then show ?case
    by (auto split: if_splits elim: acc_ZeroE acc_OneE intro: acc_Atom)
next
  case (Alt r s)
  then show ?case
    by (auto elim!: acc_AltE intro: acc_AltL acc_AltR)
next
  case (Seq r s)
  have left: "accepts (Seq r s) (c # w)" if "accepts (Seq (deriv c r) s) w"
  proof -
    from that obtain u v where "w = u @ v" "accepts (deriv c r) u" "accepts s v"
      by (auto elim: acc_SeqE)
    then have "accepts (Seq r s) ((c # u) @ v)"
      using Seq.IH(1) by (intro acc_Seq) simp_all
    with \<open>w = u @ v\<close> show ?thesis by simp
  qed
  have right: "accepts (Seq r s) (c # w)" if "nullable r" "accepts (deriv c s) w"
  proof -
    have "accepts (Seq r s) ([] @ (c # w))"
      using that Seq.IH(2) nullable_accepts by (intro acc_Seq) simp_all
    then show ?thesis by simp
  qed
  from Seq.prems show ?case
    by (auto split: if_splits elim!: acc_AltE intro: left right)
next
  case (Star r)
  from Star.prems obtain u v where "w = u @ v" "accepts (deriv c r) u" "accepts (Star r) v"
    by (auto elim: acc_SeqE)
  then have "accepts (Star r) ((c # u) @ v)"
    using Star.IH by (intro acc_StarCons) simp_all
  with \<open>w = u @ v\<close> show ?case by simp
qed (auto elim: acc_ZeroE)

lemma deriv_complete: "accepts r w \<Longrightarrow> w = c # w' \<Longrightarrow> accepts (deriv c r) w'"
proof (induction arbitrary: w' rule: accepts.induct)
  case (acc_Seq r u s v)
  show ?case
  proof (cases u)
    case Nil
    with acc_Seq have "nullable r" "accepts (deriv c s) w'"
      by (auto intro: accepts_nil_nullable)
    then show ?thesis by (auto intro: acc_AltR)
  next
    case (Cons a u')
    with acc_Seq have "accepts (deriv c r) u'" "w' = u' @ v" by auto
    with acc_Seq.hyps(2) have "accepts (Seq (deriv c r) s) w'"
      by (auto intro: accepts.acc_Seq)
    then show ?thesis by (auto intro: acc_AltL)
  qed
next
  case (acc_StarCons r u v)
  show ?case
  proof (cases u)
    case Nil
    with acc_StarCons show ?thesis by auto
  next
    case (Cons a u')
    with acc_StarCons have "accepts (deriv c r) u'" "w' = u' @ v" by auto
    with acc_StarCons.hyps(2) show ?thesis
      by (auto intro: accepts.acc_Seq)
  qed
qed (auto intro: accepts.intros)

lemma matches_accepts: "matches r w \<longleftrightarrow> accepts r w"
proof (induction w arbitrary: r)
  case Nil
  show ?case
    using nullable_accepts accepts_nil_nullable by auto
next
  case (Cons c w)
  show ?case
    using Cons.IH deriv_sound deriv_complete by auto
qed

lemma accepts_Star_any: "accepts (Star (Atom (\<lambda>c. True))) w"
proof (induction w)
  case Nil
  show ?case by (rule acc_StarNil)
next
  case (Cons c w)
  have "accepts (Star (Atom (\<lambda>c. True))) ([c] @ w)"
    using Cons by (intro acc_StarCons acc_Atom) simp_all
  then show ?case by simp
qed

lemma test_search_Atom: "test_search (Atom p) s \<longleftrightarrow> (\<exists>c \<in> set s. p c)"
proof
  assume "test_search (Atom p) s"
  then have "accepts (Seq (Star (Atom (\<lambda>c. True))) (Seq (Atom p) (Star (Atom (\<lambda>c. True))))) s"
    by (simp add: test_search_def matches_accepts)
  then obtain u c v where "s = u @ [c] @ v" "p c"
    by (auto elim!: acc_SeqE acc_AtomE)
  then show "\<exists>c \<in> set s. p c" by auto
next
  assume "\<exists>c \<in> set s. p c"
  then obtain c where "c \<in> set s" and "p c" by blast
  then obtain u v where s: "s = u @ c # v"
    by (auto dest: split_list)
  have mid: "accepts (Seq (Atom p) (Star (Atom (\<lambda>c. True)))) ([c] @ v)"
    using \<open>p c\<close> by (intro acc_Seq acc_Atom accepts_Star_any)
  have "accepts (Seq (Star (Atom (\<lambda>c. True))) (Seq (Atom p) (Star (Atom (\<lambda>c. True)))))
      (u @ ([c] @ v))"
    by (intro acc_Seq accepts_Star_any mid)
  with s show "test_search (Atom p) s"
    by (simp add: test_search_def matches_accepts)
qed

section \<open>Parsing the text that stringify writes\<close>

lemma hexValue_hexDigit_upto: "\<forall>d \<in> set [0..<16]. hexValue (hexDigit d) = Some d"
  by code_simp

lemma hexValue_hexDigit: "d < 16 \<Longrightarrow> hexValue (hexDigit d) = Some d"
  using hexValue_hexDigit_upto by simp

lemma hex_digits_sum:
  "((n div 4096 * 16 + n div 256 mod 16) * 16 + n div 16 mod 16) * 16 + n mod 16 = (n::nat)"
proof -
  have e1: "n div 256 = n div 16 div 16"
    using div_mult2_eq [of n 16 16] by simp
  have e2: "n div 4096 = n div 256 div 16"
    using div_mult2_eq [of n 256 16] by simp
  have a: "n div 16 = (n div 256) * 16 + n div 16 mod 16"
    unfolding e1 by simp
  have b: "n div 256 = (n div 4096) * 16 + n div 256 mod 16"
    unfolding e2 by simp
  have "n = (n div 16) * 16 + n mod 16" by simp
  also have "\<dots> = ((n div 256) * 16 + n div 16 mod 16) * 16 + n mod 16"
    using a by simp
  also have "\<dots> = ((n div 4096 * 16 + n div 256 mod 16) * 16 + n div 16 mod 16) * 16 + n mod 16"
    using b by simp
  finally show ?thesis by simp
qed

lemma hex4_UnicodeEscape:
  "hex4 (hexDigit (unat c div 4096)) (hexDigit (unat c div 256 mod 16))
     (hexDigit (unat c div 16 mod 16)) (hexDigit (unat c mod 16)) = Some c"
proof -
  have "unat c < 65536" using unsigned_less [of c] by simp
  then have d: "unat c div 4096 < 16" by simp
  have "hex4 (hexDigit (unat c div 4096)) (hexDigit (unat c div 256 mod 16))
     (hexDigit (unat c div 16 mod 16)) (hexDigit (unat c mod 16)) =
     Some (of_nat (((unat c div 4096 * 16 + unat c div 256 mod 16) * 16 + unat c div 16 mod 16) * 16
        + unat c mod 16))"
    unfolding hex4_def using d by (simp add: hexValue_hexDigit)
  also have "\<dots> = Some c"
    unfolding hex_digits_sum by simp
  finally show ?thesis .
qed

lemma parseChars_literal:
  "c \<noteq> 0x22 \<Longrightarrow> c \<noteq> 0x5C \<Longrightarrow> \<not> c < 0x20 \<Longrightarrow>
     parseChars (c # rest) = consChar c (parseChars rest)"
  by simp

lemma parseChars_simple:
  "e \<noteq> of_char CHR ''u'' \<Longrightarrow> simpleEscape e = Some u \<Longrightarrow>
     parseChars (0x5C # e # rest) = consChar u (parseChars rest)"
  by simp

lemma parseChars_unicode:
  "hex4 h1 h2 h3 h4 = Some u \<Longrightarrow>
     parseChars (0x5C # of_char CHR ''u'' # h1 # h2 # h3 # h4 # rest) = consChar u (parseChars rest)"
  by simp

lemma parseChars_quoteUnit: "parseChars (quoteUnit c @ rest) = consChar c (parseChars rest)"
proof -
  consider (b) "c = 0x08" | (t) "c = 0x09" | (n) "c = 0x0A" | (f) "c = 0x0C" | (r) "c = 0x0D"
    | (q) "c = 0x22" | (bs) "c = 0x5C"
    | (u) "c \<notin> {0x08, 0x09, 0x0A, 0x0C, 0x0D, 0x22, 0x5C}"
        "c < 0x20 \<or> isHighSurrogate c \<or> isLowSurrogate c"
    | (lit) "c \<notin> {0x08, 0x09, 0x0A, 0x0C, 0x0D, 0x22, 0x5C}"
        "\<not> (c < 0x20 \<or> isHighSurrogate c \<or> isLowSurrogate c)"
    by blast
  then show ?thesis
  proof cases
    case u
    then have "quoteUnit c = UnicodeEscape c"
      by (simp add: quoteUnit_def)
    then show ?thesis
      using parseChars_unicode [OF hex4_UnicodeEscape [of c]]
      by (simp add: UnicodeEscape_def Let_def del: parseChars.simps)
  next
    case lit
    then have "quoteUnit c = [c]"
      by (simp add: quoteUnit_def)
    then show ?thesis
      using lit parseChars_literal [of c rest] by (simp del: parseChars.simps)
  qed (simp_all add: quoteUnit_def simpleEscape_def)
qed

lemma quoteChars_pair:
  "isHighSurrogate c \<Longrightarrow> isLowSurrogate d \<Longrightarrow> quoteChars (c # d # ds) = c # d # quoteChars ds"
  by (subst quoteChars.simps(2)) (simp del: quoteChars.simps)

lemma quoteChars_single:
  "\<not> (\<exists>d ds. cs = d # ds \<and> isHighSurrogate c \<and> isLowSurrogate d) \<Longrightarrow>
     quoteChars (c # cs) = quoteUnit c @ quoteChars cs"
  by (subst quoteChars.simps(2)) (auto simp del: quoteChars.simps split: list.split)

lemma surrogate_literal:
  "isHighSurrogate c \<or> isLowSurrogate c \<Longrightarrow> c \<noteq> 0x22 \<and> c \<noteq> 0x5C \<and> \<not> c < 0x20"
  by (auto simp: isHighSurrogate_def isLowSurrogate_def word_le_nat_alt word_less_nat_alt)

lemma parseChars_quoteChars: "parseChars (quoteChars s @ 0x22 # rest) = Some (s, rest)"
proof (induction s rule: quoteChars.induct)
  case 1
  show ?case by simp
next
  case (2 c cs)
  show ?case
  proof (cases "\<exists>d ds. cs = d # ds \<and> isHighSurrogate c \<and> isLowSurrogate d")
    case True
    then obtain d ds where cs: "cs = d # ds" and sur: "isHighSurrogate c \<and> isLowSurrogate d"
      by blast
    from sur have c: "c \<noteq> 0x22" "c \<noteq> 0x5C" "\<not> c < 0x20"
      and d: "d \<noteq> 0x22" "d \<noteq> 0x5C" "\<not> d < 0x20"
      using surrogate_literal [of c] surrogate_literal [of d] by blast+
    have ih: "parseChars (quoteChars ds @ 0x22 # rest) = Some (ds, rest)"
      using "2.IH"(2) [OF cs sur] .
    have "parseChars (quoteChars (c # cs) @ 0x22 # rest) =
        parseChars (c # d # (quoteChars ds @ 0x22 # rest))"
      using sur by (simp add: cs quoteChars_pair del: quoteChars.simps parseChars.simps)
    also have "\<dots> = consChar c (consChar d (parseChars (quoteChars ds @ 0x22 # rest)))"
      by (simp only: parseChars_literal [OF c] parseChars_literal [OF d])
    also have "\<dots> = Some (c # cs, rest)"
      unfolding ih by (simp add: consChar_def cs)
    finally show ?thesis .
  next
    case False
    have ih: "parseChars (quoteChars cs @ 0x22 # rest) = Some (cs, rest)"
    proof (cases cs)
      case Nil
      then show ?thesis by simp
    next
      case (Cons d ds)
      with False have "\<not> (isHighSurrogate c \<and> isLowSurrogate d)" by simp
      from "2.IH"(3) [OF Cons this] show ?thesis .
    qed
    have "parseChars (quoteChars (c # cs) @ 0x22 # rest) =
        parseChars (quoteUnit c @ (quoteChars cs @ 0x22 # rest))"
      by (simp add: quoteChars_single [OF False] del: quoteChars.simps parseChars.simps)
    also have "\<dots> = Some (c # cs, rest)"
      unfolding parseChars_quoteUnit ih by (simp add: consChar_def)
    finally show ?thesis .
  qed
qed

lemma parseJSONString_Quote: "parseJSONString (QuoteJSONString v @ rest) = Some (v, rest)"
  by (simp add: parseJSONString_def QuoteJSONString_def parseChars_quoteChars
      del: parseChars.simps)

lemma expect_Cons: "expect c (c # rest) = Some rest"
  by (simp add: expect_def)

lemma parseProperty_serialize:
  "parseProperty key (serializeProperty key v @ rest) = Some (v, rest)"
proof -
  have "serializeProperty key v @ rest =
      QuoteJSONString key @ (of_char CHR '':'' # (QuoteJSONString v @ rest))"
    by (simp add: serializeProperty_def js_def)
  then show ?thesis
    by (simp add: parseProperty_def parseJSONString_Quote expect_Cons)
qed

lemma parseUser_stringify: "parseUser (stringifyUser u @ rest) = Some (u, rest)"
proof -
  have "stringifyUser u @ rest =
     of_char CHR ''{'' # (serializeProperty (js ''id'') (uid u) @
     (of_char CHR '','' # (serializeProperty (js ''firstName'') (firstName u) @
     (of_char CHR '','' # (serializeProperty (js ''lastName'') (lastName u) @
     (of_char CHR '','' # (serializeProperty (js ''email'') (email u) @
     (of_char CHR '','' # (serializeProperty (js ''password'') (password u) @
     (of_char CHR '','' # (serializeProperty (js ''memberSince'') (memberSince u) @
     (of_char CHR ''}'' # rest))))))))))))"
    by (simp add: stringifyUser_def js_def)
  then show ?thesis
    by (simp add: parseUser_def parseProperty_serialize expect_Cons)
qed

lemma parseElements_joinComma:
  "parseElements (joinComma (map stringifyUser (u # us)) @ js '']'') = Some (u # us)"
proof (induction us arbitrary: u)
  case Nil
  have "parseElements (stringifyUser u @ (of_char CHR '']'' # [])) = Some [u]"
    by (subst parseElements.simps) (simp add: parseUser_stringify del: parseElements.simps)
  then show ?case by (simp add: js_def del: parseElements.simps)
next
  case (Cons v vs)
  have "parseElements (stringifyUser u @
      (of_char CHR '','' # (joinComma (map stringifyUser (v # vs)) @ js '']''))) =
      Some (u # v # vs)"
    by (subst parseElements.simps) (simp add: parseUser_stringify Cons.IH [simplified] del: parseElements.simps)
  then show ?case by (simp add: js_def del: parseElements.simps)
qed

lemma stringifyUser_nonempty: "stringifyUser u \<noteq> []"
  by (simp add: stringifyUser_def js_def)

lemma JSON_parse_stringify: "JSON_parse (JSON_stringify db) = Some db"
proof (cases db)
  case Nil
  then show ?thesis
    by (simp add: JSON_parse_def JSON_stringify_def js_def)
next
  case (Cons u us)
  have "joinComma (map stringifyUser (u # us)) \<noteq> []"
    using stringifyUser_nonempty by (cases us) simp_all
  then have "joinComma (map stringifyUser (u # us)) @ js '']'' \<noteq> js '']''"
    by (simp add: js_def)
  moreover have "JSON_stringify db =
      of_char CHR ''['' # (joinComma (map stringifyUser (u # us)) @ js '']'')"
    by (simp add: JSON_stringify_def js_def Cons)
  ultimately show ?thesis
    using parseElements_joinComma [of u us]
    by (simp add: JSON_parse_def Cons del: parseElements.simps joinComma.simps)
qed

section \<open>Accepted emails have no white space\<close>

text \<open>
  Every atom of \<open>emailRegex\<close> is a class without white space, so no accepted string
  has any, and \<open>trim\<close> leaves it as it is.
\<close>

fun atomsSat :: "(cu \<Rightarrow> bool) \<Rightarrow> rexp \<Rightarrow> bool" where
  "atomsSat P Zero = True"
| "atomsSat P One = True"
| "atomsSat P (Atom p) = (\<forall>c. p c \<longrightarrow> P c)"
| "atomsSat P (Alt r s) = (atomsSat P r \<and> atomsSat P s)"
| "atomsSat P (Seq r s) = (atomsSat P r \<and> atomsSat P s)"
| "atomsSat P (Star r) = atomsSat P r"

lemma accepts_atomsSat: "accepts r w \<Longrightarrow> atomsSat P r \<Longrightarrow> \<forall>c \<in> set w. P c"
  by (induction rule: accepts.induct) auto

lemma emailRegex_atoms: "atomsSat (\<lambda>c. \<not> isWhiteSpace c) emailRegex"
  by (simp add: emailRegex_def Plus_def notSpaceAt_def isWhiteSpace_def)

lemma validateEmail_no_whitespace: "validateEmail s \<Longrightarrow> \<forall>c \<in> set s. \<not> isWhiteSpace c"
  unfolding validateEmail_def test_anchored_def matches_accepts
  by (rule accepts_atomsSat [OF _ emailRegex_atoms])

lemma dropWhile_none: "\<forall>c \<in> set s. \<not> P c \<Longrightarrow> dropWhile P s = s"
  by (cases s) simp_all

lemma trim_no_whitespace: "\<forall>c \<in> set s. \<not> isWhiteSpace c \<Longrightarrow> trim s = s"
  by (simp add: trim_def dropWhile_none)

lemma validateEmail_trim: "validateEmail s \<Longrightarrow> trim s = s"
  by (rule trim_no_whitespace [OF validateEmail_no_whitespace])

lemma validateForm_email: "validateForm fd = [] \<Longrightarrow> validateEmail (fd_email fd)"
  by (auto simp: validateForm_def split: if_splits)

lemma validateEditForm_email: "validateEditForm ed = [] \<Longrightarrow> validateEmail (ed_email ed)"
  by (auto simp: validateEditForm_def split: if_splits)

section \<open>Linear scans\<close>

lemma find_None_conv: "find P xs = None \<longleftrightarrow> \<not> (\<exists>x \<in> set xs. P x)"
  by (induction xs) auto

lemma find_Some_first:
  "find P xs = Some x \<Longrightarrow>
     \<exists>i < length xs. xs ! i = x \<and> P x \<and> (\<forall>j < i. \<not> P (xs ! j))"
  by (auto simp: find_Some_iff)

lemma findIndex_ge: "- 1 \<le> findIndex P xs"
  by (induction xs) (auto simp: Let_def)

lemma findIndex_none: "findIndex P xs = - 1 \<longleftrightarrow> \<not> (\<exists>x \<in> set xs. P x)"
proof (induction xs)
  case Nil
  show ?case by simp
next
  case (Cons a xs)
  have "findIndex P xs + 1 \<noteq> - 1"
    using findIndex_ge [of P xs] by simp
  with Cons show ?case
    by (auto simp: Let_def)
qed

lemma find_findIndex:
  "find P xs = Some x \<Longrightarrow>
     findIndex P xs \<noteq> - 1 \<and> nat (findIndex P xs) < length xs \<and> xs ! nat (findIndex P xs) = x"
proof (induction xs)
  case Nil
  then show ?case by simp
next
  case (Cons a xs)
  show ?case
  proof (cases "P a")
    case True
    with Cons.prems show ?thesis by simp
  next
    case False
    with Cons.prems have f: "find P xs = Some x" by simp
    from Cons.IH [OF f] have i: "findIndex P xs \<noteq> - 1" "nat (findIndex P xs) < length xs"
      "xs ! nat (findIndex P xs) = x" by simp_all
    from i(1) findIndex_ge [of P xs] have ge: "0 \<le> findIndex P xs" by simp
    then have "nat (findIndex P xs + 1) = Suc (nat (findIndex P xs))" by simp
    with False i ge show ?thesis
      by (simp add: Let_def)
  qed
qed

lemma findIndex_found:
  "findIndex P xs \<noteq> - 1 \<Longrightarrow> nat (findIndex P xs) < length xs \<and> P (xs ! nat (findIndex P xs))"
proof -
  assume ne: "findIndex P xs \<noteq> - 1"
  then obtain x where "find P xs = Some x"
    using findIndex_none [of P xs] find_None_conv [of P xs] by (cases "find P xs") auto
  from find_findIndex [OF this] find_Some_first [OF this] show ?thesis by auto
qed

text \<open>What a successful save has done.\<close>

lemma handleSave_success:
  assumes "ProfilePage_handleSave user ed st = (Inr u', st')"
  shows "validateEditForm ed = []"
    and "u' = user\<lparr>firstName := trim (ed_firstName ed), lastName := trim (ed_lastName ed),
            email := ed_email ed\<rparr>"
    and "ed_email ed = email user \<or>
         \<not> (\<exists>u \<in> set (userDatabase st). email u = ed_email ed \<and> uid u \<noteq> uid user)"
    and "findIndex (\<lambda>u. uid u = uid user) (userDatabase st) = - 1 \<Longrightarrow>
         userDatabase st' = userDatabase st \<and> localStorage st' = localStorage st"
    and "findIndex (\<lambda>u. uid u = uid user) (userDatabase st) \<noteq> - 1 \<Longrightarrow>
         userDatabase st' =
           (userDatabase st)[nat (findIndex (\<lambda>u. uid u = uid user) (userDatabase st)) := u'] \<and>
         localStorage st' = Some (JSON_stringify (userDatabase st'))"
proof -
  from assms show v: "validateEditForm ed = []"
    by (auto simp: ProfilePage_handleSave_def Let_def split: if_splits)
  have t: "trim (ed_email ed) = ed_email ed"
    by (rule validateEmail_trim [OF validateEditForm_email [OF v]])
  from assms v show "u' = user\<lparr>firstName := trim (ed_firstName ed),
      lastName := trim (ed_lastName ed), email := ed_email ed\<rparr>"
    by (auto simp: ProfilePage_handleSave_def Let_def t split: if_splits)
  from assms v show "ed_email ed = email user \<or>
      \<not> (\<exists>u \<in> set (userDatabase st). email u = ed_email ed \<and> uid u \<noteq> uid user)"
    by (auto simp: ProfilePage_handleSave_def Let_def find_None_conv split: if_splits)
  from assms v show "userDatabase st' = userDatabase st \<and> localStorage st' = localStorage st"
    if "findIndex (\<lambda>u. uid u = uid user) (userDatabase st) = - 1"
    using that
    by (auto simp: ProfilePage_handleSave_def Let_def handleUpdateProfile_def split: if_splits)
  from assms v show "userDatabase st' =
      (userDatabase st)[nat (findIndex (\<lambda>u. uid u = uid user) (userDatabase st)) := u'] \<and>
      localStorage st' = Some (JSON_stringify (userDatabase st'))"
    if "findIndex (\<lambda>u. uid u = uid user) (userDatabase st) \<noteq> - 1"
    using that
    by (auto simp: ProfilePage_handleSave_def Let_def handleUpdateProfile_def
        updateLocalStorage_def split: if_splits)
qed

section \<open>The handlers on inputs that pass their checks\<close>

lemma register_fresh:
  assumes "validateForm fd = []"
    and "\<forall>u \<in> set (userDatabase st). email u \<noteq> fd_email fd"
  shows "RegisterPage_handleSubmit clk fd st =
     (Inr (),
      st\<lparr>userDatabase := userDatabase st @ [newUser clk fd],
         localStorage := Some (JSON_stringify (userDatabase st @ [newUser clk fd]))\<rparr>)"
proof -
  from assms(2) have "find (\<lambda>u. email u = fd_email fd) (userDatabase st) = None"
    by (simp add: find_None_conv)
  with assms(1) show ?thesis
    by (simp add: RegisterPage_handleSubmit_def updateLocalStorage_def)
qed

lemma register_taken:
  assumes "validateForm fd = []"
    and "\<exists>u \<in> set (userDatabase st). email u = fd_email fd"
  shows "RegisterPage_handleSubmit clk fd st = (Inl DuplicateEmail, st)"
proof -
  from assms(2) obtain x where "find (\<lambda>u. email u = fd_email fd) (userDatabase st) = Some x"
    using find_None_conv [of "\<lambda>u. email u = fd_email fd" "userDatabase st"] by auto
  with assms(1) show ?thesis
    by (simp add: RegisterPage_handleSubmit_def)
qed

lemma login_found:
  assumes "validateEmail e" and "p \<noteq> []"
    and "find (\<lambda>u. email u = e \<and> password u = p) (userDatabase st) = Some u"
  shows "LoginPage_handleSubmit e p st = (Inr u, st\<lparr>currentUser := Some u\<rparr>)"
  using assms by (simp add: LoginPage_handleSubmit_def handleLogin_def)

lemma save_written:
  assumes "validateEditForm ed = []"
    and "ed_email ed = email user \<or>
         (\<forall>u \<in> set (userDatabase st). email u = ed_email ed \<longrightarrow> uid u = uid user)"
    and "findIndex (\<lambda>u. uid u = uid user) (userDatabase st) = int i"
    and "u' = user\<lparr>firstName := trim (ed_firstName ed), lastName := trim (ed_lastName ed),
            email := ed_email ed\<rparr>"
  shows "ProfilePage_handleSave user ed st =
     (Inr u',
      st\<lparr>userDatabase := (userDatabase st)[i := u'],
         localStorage := Some (JSON_stringify ((userDatabase st)[i := u'])),
         currentUser := Some u'\<rparr>)"
proof -
  have t: "trim (ed_email ed) = ed_email ed"
    by (rule validateEmail_trim [OF validateEditForm_email [OF assms(1)]])
  from assms(2) have scan: "ed_email ed = email user \<or>
      find (\<lambda>u. email u = ed_email ed \<and> uid u \<noteq> uid user) (userDatabase st) = None"
    by (auto simp: find_None_conv)
  show ?thesis
    using assms(1,3,4) scan
    by (simp add: ProfilePage_handleSave_def Let_def t updateLocalStorage_def
        handleUpdateProfile_def)
qed

section \<open>The sample runs\<close>

lemma annRecord:
  "newUser clock0 formAnn =
     \<lparr>uid = js ''1700000000000'', firstName = js ''Ann'', lastName = js ''Lee'',
      email = js ''ann@example.com'', password = js ''secret1'',
      memberSince = js ''2023-11-14T22:13:20.000Z''\<rparr>"
  by code_simp

lemma bobRecord:
  "newUser clock1 formBob =
     \<lparr>uid = js ''1700000060000'', firstName = js ''Bob'', lastName = js ''Ray'',
      email = js ''bob@example.com'', password = js ''hunter22'',
      memberSince = js ''2023-11-14T22:14:20.000Z''\<rparr>"
  by code_simp

lemma bobTwinRecord:
  "newUser clock0 formBob =
     \<lparr>uid = js ''1700000000000'', firstName = js ''Bob'', lastName = js ''Ray'',
      email = js ''bob@example.com'', password = js ''hunter22'',
      memberSince = js ''2023-11-14T22:13:20.000Z''\<rparr>"
  by code_simp

lemma sample_forms_valid:
  "validateForm formAnn = []" "validateForm formBob = []"
  "validateEditForm editBob = []" "validateEditForm editBobTaken = []"
  "validateEditForm editRob = []" "validateEditForm editAnn = []"
  "validateEmail (js ''bob@example.com'')"
  by code_simp+

lemma of_char_cu_inj: "inj (of_char :: char \<Rightarrow> cu)"
proof (rule injI)
  fix c d :: char
  assume "(of_char c :: cu) = of_char d"
  then have "(of_nat (of_char c) :: cu) = of_nat (of_char d)"
    by (simp add: of_nat_of_char)
  then have "take_bit 16 (of_char c :: nat) = take_bit 16 (of_char d :: nat)"
    by (simp add: word_of_nat_eq_iff)
  moreover have "take_bit 16 (of_char x :: nat) = of_char x" for x
  proof (rule take_bit_nat_eq_self)
    have "(of_char x :: nat) < 256" by (rule nat_of_char_less_256)
    also have "(256 :: nat) < 2 ^ 16" by simp
    finally show "(of_char x :: nat) < 2 ^ 16" .
  qed
  ultimately show "c = d" by simp
qed

lemma js_eq_iff: "js a = js b \<longleftrightarrow> a = b"
  by (simp add: js_def inj_map_eq_map [OF of_char_cu_inj])

lemma js_Nil_iff: "js a = [] \<longleftrightarrow> a = []"
  by (simp add: js_def)

lemmas sample_strings = js_eq_iff js_Nil_iff

lemma bob_password: "js ''hunter22'' \<noteq> []"
  by (simp add: js_Nil_iff)

lemma run_pairRegs:
  "run pairRegs =
     \<lparr>userDatabase = [newUser clock0 formAnn, newUser clock1 formBob],
      localStorage = Some (JSON_stringify [newUser clock0 formAnn, newUser clock1 formBob]),
      currentUser = None\<rparr>"
proof -
  have 1: "RegisterPage_handleSubmit clock0 formAnn initial =
      (Inr (), \<lparr>userDatabase = [newUser clock0 formAnn],
         localStorage = Some (JSON_stringify [newUser clock0 formAnn]), currentUser = None\<rparr>)"
    by (subst register_fresh) (simp_all add: sample_forms_valid initial_def)
  have fresh: "email (newUser clock0 formAnn) \<noteq> fd_email formBob"
    by (simp add: annRecord formBob_def sample_strings)
  have 2: "RegisterPage_handleSubmit clock1 formBob
      \<lparr>userDatabase = [newUser clock0 formAnn],
         localStorage = Some (JSON_stringify [newUser clock0 formAnn]), currentUser = None\<rparr> =
      (Inr (), \<lparr>userDatabase = [newUser clock0 formAnn, newUser clock1 formBob],
         localStorage = Some (JSON_stringify [newUser clock0 formAnn, newUser clock1 formBob]),
         currentUser = None\<rparr>)"
    by (subst register_fresh) (simp_all add: sample_forms_valid fresh)
  show ?thesis
    by (simp add: run_def pairRegs_def 1 2)
qed

lemma run_twinRegs:
  "run twinRegs =
     \<lparr>userDatabase = [newUser clock0 formAnn, newUser clock0 formBob],
      localStorage = Some (JSON_stringify [newUser clock0 formAnn, newUser clock0 formBob]),
      currentUser = None\<rparr>"
proof -
  have 1: "RegisterPage_handleSubmit clock0 formAnn initial =
      (Inr (), \<lparr>userDatabase = [newUser clock0 formAnn],
         localStorage = Some (JSON_stringify [newUser clock0 formAnn]), currentUser = None\<rparr>)"
    by (subst register_fresh) (simp_all add: sample_forms_valid initial_def)
  have fresh: "email (newUser clock0 formAnn) \<noteq> fd_email formBob"
    by (simp add: annRecord formBob_def sample_strings)
  have 2: "RegisterPage_handleSubmit clock0 formBob
      \<lparr>userDatabase = [newUser clock0 formAnn],
         localStorage = Some (JSON_stringify [newUser clock0 formAnn]), currentUser = None\<rparr> =
      (Inr (), \<lparr>userDatabase = [newUser clock0 formAnn, newUser clock0 formBob],
         localStorage = Some (JSON_stringify [newUser clock0 formAnn, newUser clock0 formBob]),
         currentUser = None\<rparr>)"
    by (subst register_fresh) (simp_all add: sample_forms_valid fresh)
  show ?thesis
    by (simp add: run_def twinRegs_def 1 2)
qed

lemma run_append: "run (events @ [ev]) = step (run events) ev"
  by (simp add: run_def)

lemma run_pairEvents:
  "run pairEvents =
     \<lparr>userDatabase = [newUser clock0 formAnn, newUser clock1 formBob],
      localStorage = Some (JSON_stringify [newUser clock0 formAnn, newUser clock1 formBob]),
      currentUser = Some (newUser clock1 formBob)\<rparr>"
proof -
  have f: "find (\<lambda>u. email u = js ''bob@example.com'' \<and> password u = js ''hunter22'')
      [newUser clock0 formAnn, newUser clock1 formBob] = Some (newUser clock1 formBob)"
    by (simp add: annRecord bobRecord sample_strings)
  show ?thesis
    unfolding pairEvents_def run_append run_pairRegs
    using login_found [OF sample_forms_valid(7) bob_password,
        where u = "newUser clock1 formBob" and st = "\<lparr>userDatabase = [newUser clock0 formAnn, newUser clock1 formBob],
      localStorage = Some (JSON_stringify [newUser clock0 formAnn, newUser clock1 formBob]),
      currentUser = None\<rparr>"] f
    by simp
qed

lemma run_twinEvents:
  "run twinEvents =
     \<lparr>userDatabase = [newUser clock0 formAnn, newUser clock0 formBob],
      localStorage = Some (JSON_stringify [newUser clock0 formAnn, newUser clock0 formBob]),
      currentUser = Some (newUser clock0 formBob)\<rparr>"
proof -
  have f: "find (\<lambda>u. email u = js ''bob@example.com'' \<and> password u = js ''hunter22'')
      [newUser clock0 formAnn, newUser clock0 formBob] = Some (newUser clock0 formBob)"
    by (simp add: annRecord bobTwinRecord sample_strings)
  show ?thesis
    unfolding twinEvents_def run_append run_twinRegs
    using login_found [OF sample_forms_valid(7) bob_password,
        where u = "newUser clock0 formBob" and st = "\<lparr>userDatabase = [newUser clock0 formAnn, newUser clock0 formBob],
      localStorage = Some (JSON_stringify [newUser clock0 formAnn, newUser clock0 formBob]),
      currentUser = None\<rparr>"] f
    by simp
qed

lemma trim_sample_names:
  "trim (js ''Ann'') = js ''Ann''" "trim (js ''Lee'') = js ''Lee''"
  "trim (js ''Bob'') = js ''Bob''" "trim (js ''Ray'') = js ''Ray''"
  "trim (js '' Robert'') = js ''Robert''" "trim (js ''Ray '') = js ''Ray''"
  by code_simp+

text \<open>Bob, logged in after the twin registrations, saves his profile unchanged.\<close>

lemma twin_save:
  "ProfilePage_handleSave (newUser clock0 formBob) editBob (run twinEvents) =
     (Inr (newUser clock0 formBob),
      \<lparr>userDatabase = [newUser clock0 formBob, newUser clock0 formBob],
       localStorage = Some (JSON_stringify [newUser clock0 formBob, newUser clock0 formBob]),
       currentUser = Some (newUser clock0 formBob)\<rparr>)"
proof -
  have i: "findIndex (\<lambda>u. uid u = uid (newUser clock0 formBob)) (userDatabase (run twinEvents)) =
      int 0"
    by (simp add: run_twinEvents annRecord bobTwinRecord)
  have u: "newUser clock0 formBob =
      (newUser clock0 formBob)\<lparr>firstName := trim (ed_firstName editBob),
         lastName := trim (ed_lastName editBob), email := ed_email editBob\<rparr>"
    by (simp add: bobTwinRecord editBob_def trim_sample_names)
  have e: "ed_email editBob = email (newUser clock0 formBob)"
    by (simp add: bobTwinRecord editBob_def)
  show ?thesis
    using save_written [OF sample_forms_valid(3) disjI1 [OF e] i u]
    by (simp add: run_twinEvents)
qed

text \<open>Bob, logged in after the two registrations a minute apart, renames himself.\<close>

lemma pair_save:
  "ProfilePage_handleSave (newUser clock1 formBob) editRob (run pairEvents) =
     (Inr ((newUser clock1 formBob)\<lparr>firstName := js ''Robert'', lastName := js ''Ray'',
              email := js ''rob@example.com''\<rparr>),
      \<lparr>userDatabase = [newUser clock0 formAnn,
         (newUser clock1 formBob)\<lparr>firstName := js ''Robert'', lastName := js ''Ray'',
              email := js ''rob@example.com''\<rparr>],
       localStorage = Some (JSON_stringify [newUser clock0 formAnn,
         (newUser clock1 formBob)\<lparr>firstName := js ''Robert'', lastName := js ''Ray'',
              email := js ''rob@example.com''\<rparr>]),
       currentUser = Some ((newUser clock1 formBob)\<lparr>firstName := js ''Robert'',
              lastName := js ''Ray'', email := js ''rob@example.com''\<rparr>)\<rparr>)"
proof -
  have i: "findIndex (\<lambda>u. uid u = uid (newUser clock1 formBob)) (userDatabase (run pairEvents)) =
      int 1"
    by (simp add: run_pairEvents annRecord bobRecord sample_strings)
  have u: "(newUser clock1 formBob)\<lparr>firstName := js ''Robert'', lastName := js ''Ray'',
         email := js ''rob@example.com''\<rparr> =
      (newUser clock1 formBob)\<lparr>firstName := trim (ed_firstName editRob),
         lastName := trim (ed_lastName editRob), email := ed_email editRob\<rparr>"
    by (simp add: editRob_def trim_sample_names)
  have e: "\<forall>u \<in> set (userDatabase (run pairEvents)).
      email u = ed_email editRob \<longrightarrow> uid u = uid (newUser clock1 formBob)"
    by (simp add: run_pairEvents annRecord bobRecord editRob_def sample_strings)
  show ?thesis
    using save_written [OF sample_forms_valid(5) disjI2 [OF e] i u]
    by (simp add: run_pairEvents)
qed

text \<open>What a successful registration has done.\<close>

lemma register_success:
  assumes "RegisterPage_handleSubmit clk fd st = (Inr (), st')"
  shows "validateForm fd = []"
    and "find (\<lambda>u. email u = fd_email fd) (userDatabase st) = None"
    and "userDatabase st' = userDatabase st @ [newUser clk fd]"
    and "localStorage st' = Some (JSON_stringify (userDatabase st'))"
    and "trim (fd_email fd) = fd_email fd"
proof -
  from assms show v: "validateForm fd = []"
    by (auto simp: RegisterPage_handleSubmit_def Let_def split: if_splits)
  from assms v show n: "find (\<lambda>u. email u = fd_email fd) (userDatabase st) = None"
    by (auto simp: RegisterPage_handleSubmit_def split: option.splits)
  from assms v n show "userDatabase st' = userDatabase st @ [newUser clk fd]"
    by (auto simp: RegisterPage_handleSubmit_def updateLocalStorage_def)
  from assms v n show "localStorage st' = Some (JSON_stringify (userDatabase st'))"
    by (auto simp: RegisterPage_handleSubmit_def updateLocalStorage_def)
  show "trim (fd_email fd) = fd_email fd"
    by (rule validateEmail_trim [OF validateForm_email [OF v]])
qed

lemma find_distinct_key:
  "distinct (map f xs) \<Longrightarrow> x \<in> set xs \<Longrightarrow> find (\<lambda>u. f u = f x) xs = Some x"
  by (induction xs) auto

section \<open>Password strength\<close>

text \<open>
  C4. For every password the classifier returns weak when the length is below 6;
  otherwise, with the score being the number of criteria that hold among length at
  least 8, a character in \<open>a-z\<close>, a character in \<open>A-Z\<close>, a character in \<open>0-9\<close> and a
  character outside these three ranges, it returns weak for a score of at most 2,
  medium for a score of 3 or 4 and strong for a score of 5.
\<close>

theorem calculatePasswordStrength_spec:
  "calculatePasswordStrength pw =
     (if length pw < 6 then Weak
      else if criteria_score pw \<le> 2 then Weak
      else if 3 \<le> criteria_score pw \<and> criteria_score pw \<le> 4 then Medium
      else Strong)
   \<and> criteria_score pw \<le> 5"
  by (auto simp: calculatePasswordStrength_def criteria_score_def test_search_Atom Let_def)

text \<open>
  C5, as stated: the samples \<open>abc\<close>, \<open>abcdefgh\<close>, \<open>Password1!\<close> and \<open>password\<close> are
  classified weak, medium, strong and weak. The classifier does not do that:
  \<open>abcdefgh\<close> meets two criteria only (length at least 8, a lowercase letter).
\<close>

theorem strength_samples_counterexample:
  "\<not> (calculatePasswordStrength (js ''abc'') = Weak \<and>
      calculatePasswordStrength (js ''abcdefgh'') = Medium \<and>
      calculatePasswordStrength (js ''Password1!'') = Strong \<and>
      calculatePasswordStrength (js ''password'') = Weak)"
proof -
  have "calculatePasswordStrength (js ''abcdefgh'') = Weak" by code_simp
  then show ?thesis by simp
qed

text \<open>
  C5, amended: the samples \<open>abc\<close>, \<open>abcdefgh\<close>, \<open>Password1!\<close> and \<open>password\<close> are
  classified weak, weak, strong and weak; the scores of the last three are 2, 5 and 2.
\<close>

theorem strength_samples:
  "calculatePasswordStrength (js ''abc'') = Weak \<and>
   calculatePasswordStrength (js ''abcdefgh'') = Weak \<and>
   calculatePasswordStrength (js ''Password1!'') = Strong \<and>
   calculatePasswordStrength (js ''password'') = Weak"
  by code_simp

section \<open>Registration\<close>

text \<open>
  C2. For every store and every registration input that passes \<open>validateForm\<close>, the
  submit fails with \<open>DuplicateEmail\<close> exactly when some stored record has the email of
  the form, and then the store is left as it was; otherwise the new record, whose email
  is the email of the form, is appended after the existing records and the collection
  is written to the \<open>users\<close> item of local storage.
\<close>

theorem create_spec:
  assumes "validateForm fd = []"
  shows "(fst (RegisterPage_handleSubmit clk fd st) = Inl DuplicateEmail \<longleftrightarrow>
            (\<exists>u \<in> set (userDatabase st). email u = fd_email fd)) \<and>
         ((\<exists>u \<in> set (userDatabase st). email u = fd_email fd) \<longrightarrow>
            RegisterPage_handleSubmit clk fd st = (Inl DuplicateEmail, st)) \<and>
         (\<not> (\<exists>u \<in> set (userDatabase st). email u = fd_email fd) \<longrightarrow>
            RegisterPage_handleSubmit clk fd st =
              (Inr (),
               st\<lparr>userDatabase := userDatabase st @ [newUser clk fd],
                  localStorage := Some (JSON_stringify (userDatabase st @ [newUser clk fd]))\<rparr>) \<and>
            email (newUser clk fd) = fd_email fd)"
proof (cases "find (\<lambda>u. email u = fd_email fd) (userDatabase st)")
  case None
  then have no: "\<not> (\<exists>u \<in> set (userDatabase st). email u = fd_email fd)"
    by (simp add: find_None_conv)
  have "email (newUser clk fd) = fd_email fd"
    using validateEmail_trim [OF validateForm_email [OF assms]] by (simp add: newUser_def)
  with None no assms show ?thesis
    by (simp add: RegisterPage_handleSubmit_def updateLocalStorage_def)
next
  case (Some existing)
  then have "\<exists>u \<in> set (userDatabase st). email u = fd_email fd"
    using find_None_conv [of "\<lambda>u. email u = fd_email fd" "userDatabase st"] by auto
  with Some assms show ?thesis
    by (simp add: RegisterPage_handleSubmit_def)
qed

text \<open>
  The theorem at the sample form of Bob: the first registration on the empty store
  appends his record, the second one with the same form is refused.
\<close>

theorem create_spec_witness:
  "validateForm formBob = [] \<and>
   RegisterPage_handleSubmit clock0 formBob initial =
     (Inr (),
      initial\<lparr>userDatabase := [newUser clock0 formBob],
              localStorage := Some (JSON_stringify [newUser clock0 formBob])\<rparr>) \<and>
   RegisterPage_handleSubmit clock0 formBob (run [Register clock0 formBob]) =
     (Inl DuplicateEmail, run [Register clock0 formBob])"
proof -
  have v: "validateForm formBob = []" by code_simp
  have e: "email (newUser clock0 formBob) = fd_email formBob"
    using create_spec [OF v, where clk = clock0 and st = initial] by (simp add: initial_def)
  have r: "run [Register clock0 formBob] =
      initial\<lparr>userDatabase := [newUser clock0 formBob],
              localStorage := Some (JSON_stringify [newUser clock0 formBob])\<rparr>"
    using create_spec [OF v, where clk = clock0 and st = initial] by (simp add: run_def initial_def)
  have d: "\<exists>u \<in> set (userDatabase (run [Register clock0 formBob])). email u = fd_email formBob"
    unfolding r using e by simp
  show ?thesis
    using v create_spec [OF v, where clk = clock0 and st = initial]
      create_spec [OF v, where clk = clock0 and st = "run [Register clock0 formBob]"] d
    by (simp add: initial_def)
qed

section \<open>Login\<close>

text \<open>
  C3, as stated: for every store and every pair of email and password, the login
  returns a record exactly when some stored record has that email and that password,
  and fails with \<open>InvalidCredentials\<close> when none has. The login page checks its input
  before it looks anything up: an email that \<open>validateEmail\<close> refuses, or an empty
  password, is answered with a field error. On the store with Ann and Bob no record has
  the email \<open>bob@example\<close>, and the answer is the field error of the email, not
  \<open>InvalidCredentials\<close>.
\<close>

theorem login_counterexample:
  "userDatabase (run pairRegs) = [newUser clock0 formAnn, newUser clock1 formBob] \<and>
   email (newUser clock0 formAnn) \<noteq> js ''bob@example'' \<and>
   email (newUser clock1 formBob) \<noteq> js ''bob@example'' \<and>
   LoginPage_handleSubmit (js ''bob@example'') (js ''hunter22'') (run pairRegs) =
     (Inl (FieldErrors [(Email, ''Please enter a valid email address'')]), run pairRegs) \<and>
   fst (LoginPage_handleSubmit (js ''bob@example'') (js ''hunter22'') (run pairRegs)) \<noteq>
     Inl InvalidCredentials"
proof -
  have bad: "\<not> validateEmail (js ''bob@example'')" by code_simp
  then have "LoginPage_handleSubmit (js ''bob@example'') (js ''hunter22'') (run pairRegs) =
      (Inl (FieldErrors [(Email, ''Please enter a valid email address'')]), run pairRegs)"
    by (simp add: LoginPage_handleSubmit_def)
  then show ?thesis
    by (simp add: run_pairRegs annRecord bobRecord sample_strings)
qed

text \<open>
  C3, amended: for every store and every pair of an email that passes the email-shape
  check and a password that is not empty, the login returns a record exactly when some
  stored record has that email and that password, both compared code unit by code
  unit; the record returned is the first such record of the collection; when no record
  has both, it fails with \<open>InvalidCredentials\<close> and the store is unchanged. Any other
  input is refused with a field error and nothing is looked up. The login never changes
  the collection or its persisted text.
\<close>

theorem login_spec:
  "(validateEmail e \<and> p \<noteq> [] \<longrightarrow>
      ((\<exists>u. fst (LoginPage_handleSubmit e p st) = Inr u) \<longleftrightarrow>
         (\<exists>u \<in> set (userDatabase st). email u = e \<and> password u = p)) \<and>
      (fst (LoginPage_handleSubmit e p st) = Inr u \<longrightarrow>
         (\<exists>i < length (userDatabase st). userDatabase st ! i = u \<and> email u = e \<and> password u = p \<and>
            (\<forall>j < i. \<not> (email (userDatabase st ! j) = e \<and> password (userDatabase st ! j) = p)))) \<and>
      (\<not> (\<exists>u \<in> set (userDatabase st). email u = e \<and> password u = p) \<longrightarrow>
         LoginPage_handleSubmit e p st = (Inl InvalidCredentials, st))) \<and>
   (\<not> (validateEmail e \<and> p \<noteq> []) \<longrightarrow>
      (\<exists>errors. LoginPage_handleSubmit e p st = (Inl (FieldErrors errors), st))) \<and>
   userDatabase (snd (LoginPage_handleSubmit e p st)) = userDatabase st \<and>
   localStorage (snd (LoginPage_handleSubmit e p st)) = localStorage st"
proof (cases "validateEmail e \<and> p \<noteq> []")
  case False
  then show ?thesis
    by (auto simp: LoginPage_handleSubmit_def)
next
  case True
  show ?thesis
  proof (cases "find (\<lambda>u. email u = e \<and> password u = p) (userDatabase st)")
    case None
    with True have a: "LoginPage_handleSubmit e p st = (Inl InvalidCredentials, st)"
      by (simp add: LoginPage_handleSubmit_def)
    from None have "\<not> (\<exists>u \<in> set (userDatabase st). email u = e \<and> password u = p)"
      by (simp add: find_None_conv)
    with a True show ?thesis by simp
  next
    case (Some found)
    from find_Some_first [OF Some]
    have first: "\<exists>i < length (userDatabase st). userDatabase st ! i = found \<and>
        email found = e \<and> password found = p \<and>
        (\<forall>j < i. \<not> (email (userDatabase st ! j) = e \<and> password (userDatabase st ! j) = p))"
      by simp
    then have ex: "\<exists>u \<in> set (userDatabase st). email u = e \<and> password u = p"
      by (metis nth_mem)
    from Some True have a: "LoginPage_handleSubmit e p st = (Inr found, handleLogin found st)"
      by (simp add: LoginPage_handleSubmit_def)
    from first ex True show ?thesis
      unfolding a by (auto simp: handleLogin_def)
  qed
qed

text \<open>
  The theorem on the store with Ann and Bob registered: Bob's credentials return his
  record, the second of the collection; Bob's email with Ann's password is refused
  with \<open>InvalidCredentials\<close>.
\<close>

theorem login_spec_witness:
  "fst (LoginPage_handleSubmit (js ''bob@example.com'') (js ''hunter22'') (run pairRegs)) =
     Inr (newUser clock1 formBob) \<and>
   LoginPage_handleSubmit (js ''bob@example.com'') (js ''secret1'') (run pairRegs) =
     (Inl InvalidCredentials, run pairRegs)"
proof -
  have f: "find (\<lambda>u. email u = js ''bob@example.com'' \<and> password u = js ''hunter22'')
      (userDatabase (run pairRegs)) = Some (newUser clock1 formBob)"
    by (simp add: run_pairRegs annRecord bobRecord sample_strings)
  have ok: "fst (LoginPage_handleSubmit (js ''bob@example.com'') (js ''hunter22'') (run pairRegs)) =
      Inr (newUser clock1 formBob)"
    unfolding login_found [OF sample_forms_valid(7) bob_password f] by simp
  have pw: "js ''secret1'' \<noteq> []"
    by (simp add: js_Nil_iff)
  have no: "\<not> (\<exists>u \<in> set (userDatabase (run pairRegs)).
      email u = js ''bob@example.com'' \<and> password u = js ''secret1'')"
    by (simp add: run_pairRegs annRecord bobRecord sample_strings)
  show ?thesis
    using ok no pw sample_forms_valid(7)
      login_spec [of "js ''bob@example.com''" "js ''secret1''" "run pairRegs"]
    by blast
qed

section \<open>Persisting and reloading\<close>

text \<open>
  C8. Writing the collection to the \<open>users\<close> item (\<open>JSON.stringify\<close>) and loading the
  item again (\<open>JSON.parse\<close>) gives the collection that was written, for every
  collection of user records; writing does not change the collection in memory.
\<close>

theorem persist_reload_roundtrip:
  "loadUserDatabase (localStorage (updateLocalStorage st)) = Some (userDatabase st) \<and>
   userDatabase (updateLocalStorage st) = userDatabase st"
  by (simp add: loadUserDatabase_def updateLocalStorage_def JSON_parse_stringify)

section \<open>The stored email is the compared email\<close>

text \<open>
  C10. Every string that \<open>validateEmail\<close> accepts has no white space character, so
  \<open>trim\<close> returns it unchanged; hence the email that a successful registration stores,
  the trimmed input, is the input that the duplicate scan compared with the stored
  emails.
\<close>

theorem accepted_email_trim_identity:
  "(validateEmail s \<longrightarrow> (\<forall>c \<in> set s. \<not> isWhiteSpace c) \<and> trim s = s) \<and>
   (RegisterPage_handleSubmit clk fd st = (Inr (), st') \<longrightarrow>
      find (\<lambda>u. email u = fd_email fd) (userDatabase st) = None \<and>
      userDatabase st' = userDatabase st @ [newUser clk fd] \<and>
      email (newUser clk fd) = trim (fd_email fd) \<and>
      trim (fd_email fd) = fd_email fd)"
  using validateEmail_no_whitespace [of s] validateEmail_trim [of s]
    register_success(2,3,5) [of clk fd st st']
  by (simp add: newUser_def)

text \<open>
  The theorem at Ann's email and at her registration on the empty store; with a leading
  space the email is refused.
\<close>

theorem accepted_email_trim_identity_witness:
  "validateEmail (js ''ann@example.com'') \<and>
   trim (js ''ann@example.com'') = js ''ann@example.com'' \<and>
   isWhiteSpace (of_char CHR '' '') \<and>
   \<not> validateEmail (js '' ann@example.com'') \<and>
   email (newUser clock0 formAnn) = fd_email formAnn"
proof -
  have v: "validateEmail (js ''ann@example.com'')" by code_simp
  have w: "isWhiteSpace (of_char CHR '' '')" by code_simp
  have n: "\<not> validateEmail (js '' ann@example.com'')" by code_simp
  have r: "RegisterPage_handleSubmit clock0 formAnn initial =
      (Inr (),
       initial\<lparr>userDatabase := userDatabase initial @ [newUser clock0 formAnn],
         localStorage := Some (JSON_stringify (userDatabase initial @ [newUser clock0 formAnn]))\<rparr>)"
    by (rule register_fresh) (simp_all add: sample_forms_valid initial_def)
  show ?thesis
    using v w n accepted_email_trim_identity [of "js ''ann@example.com''" clock0 formAnn initial
        "initial\<lparr>userDatabase := userDatabase initial @ [newUser clock0 formAnn],
         localStorage := Some (JSON_stringify (userDatabase initial @ [newUser clock0 formAnn]))\<rparr>"]
      r
    by simp
qed

section \<open>Profile edits and duplicate emails\<close>

text \<open>
  C6, as stated: for every store and every valid edit, the save fails with
  \<open>DuplicateEmail\<close> when the email of the edit is the email of a record with another id.
  It does not when that email is also the edited record's own: the scan is skipped, as
  the second half of the claim says. In \<open>dupStore\<close> Ann and Amy have the same email and
  different ids; Ann saves her profile with her email unchanged, and the save succeeds.
\<close>

theorem update_duplicate_counterexample:
  "validateEditForm editAnn = [] \<and>
   dupAmy \<in> set (userDatabase dupStore) \<and>
   email dupAmy = ed_email editAnn \<and>
   uid dupAmy \<noteq> uid dupAnn \<and>
   ProfilePage_handleSave dupAnn editAnn dupStore \<noteq> (Inl DuplicateEmail, dupStore) \<and>
   fst (ProfilePage_handleSave dupAnn editAnn dupStore) = Inr dupAnn"
proof -
  have i: "findIndex (\<lambda>u. uid u = uid dupAnn) (userDatabase dupStore) = int 0"
    by (simp add: dupStore_def)
  have u: "dupAnn = dupAnn\<lparr>firstName := trim (ed_firstName editAnn),
      lastName := trim (ed_lastName editAnn), email := ed_email editAnn\<rparr>"
    by (simp add: dupAnn_def editAnn_def trim_sample_names)
  have e: "ed_email editAnn = email dupAnn"
    by (simp add: dupAnn_def editAnn_def)
  note r = save_written [OF sample_forms_valid(6) disjI1 [OF e] i u]
  have m: "dupAmy \<in> set (userDatabase dupStore)"
    by (simp add: dupStore_def)
  have em: "email dupAmy = ed_email editAnn"
    by (simp add: dupAmy_def editAnn_def)
  have ne: "uid dupAmy \<noteq> uid dupAnn"
    by (simp add: dupAmy_def dupAnn_def sample_strings)
  show ?thesis
    unfolding r using sample_forms_valid(6) m em ne by simp
qed

text \<open>
  C6, amended: for every store and every valid edit, the save fails with
  \<open>DuplicateEmail\<close> exactly when the email of the edit differs from the edited record's
  current email and is the email of a stored record with another id, and then the store
  is left as it was; an edit that keeps the record's own email always passes the
  duplicate check and succeeds.
\<close>

theorem update_duplicate_spec:
  assumes "validateEditForm ed = []"
  shows "(fst (ProfilePage_handleSave user ed st) = Inl DuplicateEmail \<longleftrightarrow>
            ed_email ed \<noteq> email user \<and>
            (\<exists>u \<in> set (userDatabase st). email u = ed_email ed \<and> uid u \<noteq> uid user)) \<and>
         (ed_email ed \<noteq> email user \<and>
            (\<exists>u \<in> set (userDatabase st). email u = ed_email ed \<and> uid u \<noteq> uid user) \<longrightarrow>
            ProfilePage_handleSave user ed st = (Inl DuplicateEmail, st)) \<and>
         (ed_email ed = email user \<longrightarrow>
            fst (ProfilePage_handleSave user ed st) =
              Inr (user\<lparr>firstName := trim (ed_firstName ed), lastName := trim (ed_lastName ed)\<rparr>))"
proof -
  have t: "trim (ed_email ed) = ed_email ed"
    by (rule validateEmail_trim [OF validateEditForm_email [OF assms]])
  then have t': "trim (email user) = email user" if "ed_email ed = email user"
    using that by simp
  have same: "user\<lparr>firstName := a, lastName := b, email := email user\<rparr> =
      user\<lparr>firstName := a, lastName := b\<rparr>" for a b
    by simp
  show ?thesis
    using assms
    by (auto simp: ProfilePage_handleSave_def Let_def find_None_conv t t' same)
qed

text \<open>
  The theorem on the store with Ann and Bob: Bob cannot take Ann's email, and saving
  his profile with his own email succeeds.
\<close>

theorem update_duplicate_spec_witness:
  "ProfilePage_handleSave (newUser clock1 formBob) editBobTaken (run pairEvents) =
     (Inl DuplicateEmail, run pairEvents) \<and>
   fst (ProfilePage_handleSave (newUser clock1 formBob) editBob (run pairEvents)) =
     Inr (newUser clock1 formBob)"
proof -
  have c: "ed_email editBobTaken \<noteq> email (newUser clock1 formBob) \<and>
      (\<exists>u \<in> set (userDatabase (run pairEvents)).
         email u = ed_email editBobTaken \<and> uid u \<noteq> uid (newUser clock1 formBob))"
    by (simp add: run_pairEvents annRecord bobRecord editBobTaken_def sample_strings)
  have s: "ed_email editBob = email (newUser clock1 formBob)"
    by (simp add: bobRecord editBob_def)
  have u: "(newUser clock1 formBob)\<lparr>firstName := trim (ed_firstName editBob),
      lastName := trim (ed_lastName editBob)\<rparr> = newUser clock1 formBob"
    by (simp add: bobRecord editBob_def trim_sample_names)
  show ?thesis
    using update_duplicate_spec [OF sample_forms_valid(4),
        where user = "newUser clock1 formBob" and st = "run pairEvents"]
      update_duplicate_spec [OF sample_forms_valid(3),
        where user = "newUser clock1 formBob" and st = "run pairEvents"]
      c s u
    by simp
qed

section \<open>Identifiers\<close>

text \<open>
  C9. Record identifiers are meant to be unique in every store the application can
  reach, the identifier being generated at creation. It is generated at creation, as
  the decimal text of the clock value, and nothing checks that it is new: in
  \<open>twinRegs\<close> Ann and Bob register at the same clock value, both registrations succeed,
  and the two different records have the same id.
\<close>

theorem twin_registrations_share_id:
  "userDatabase (run twinRegs) = [newUser clock0 formAnn, newUser clock0 formBob] \<and>
   newUser clock0 formAnn \<noteq> newUser clock0 formBob \<and>
   uid (newUser clock0 formAnn) = js ''1700000000000'' \<and>
   uid (newUser clock0 formBob) = js ''1700000000000'' \<and>
   \<not> distinct (map uid (userDatabase (run twinRegs)))"
  by (simp add: run_twinRegs annRecord bobTwinRecord sample_strings)

text \<open>
  A registration whose clock value gives an id that no stored record has keeps the ids
  distinct, and a save never changes the id of any position.
\<close>

lemma register_new_id:
  assumes "RegisterPage_handleSubmit clk fd st = (Inr (), st')"
    and "distinct (map uid (userDatabase st))"
    and "Number_toString (Date_now clk) \<notin> set (map uid (userDatabase st))"
  shows "distinct (map uid (userDatabase st'))"
  using register_success(3) [OF assms(1)] assms(2,3) by (simp add: newUser_def)

lemma save_keeps_ids:
  "map uid (userDatabase (snd (ProfilePage_handleSave user ed st))) = map uid (userDatabase st)"
proof (cases "ProfilePage_handleSave user ed st")
  case (Pair res st')
  show ?thesis
  proof (cases res)
    case (Inl err)
    with Pair have "st' = st"
      by (auto simp: ProfilePage_handleSave_def Let_def split: if_splits)
    with Pair show ?thesis by simp
  next
    case (Inr u')
    with Pair have ok: "ProfilePage_handleSave user ed st = (Inr u', st')" by simp
    note s = handleSave_success [OF ok]
    show ?thesis
    proof (cases "findIndex (\<lambda>u. uid u = uid user) (userDatabase st) = - 1")
      case True
      from s(4) [OF True] Pair show ?thesis by simp
    next
      case False
      from findIndex_found [OF False]
      have "uid (userDatabase st ! nat (findIndex (\<lambda>u. uid u = uid user) (userDatabase st))) =
          uid user" by simp
      moreover from s(2) have "uid u' = uid user" by simp
      ultimately have "(map uid (userDatabase st))
          [nat (findIndex (\<lambda>u. uid u = uid user) (userDatabase st)) := uid u'] =
          map uid (userDatabase st)"
        using findIndex_found [OF False] by (simp add: list_update_same_conv)
      with s(5) [OF False] Pair show ?thesis
        by (simp add: map_update)
    qed
  qed
qed

section \<open>What a profile edit changes\<close>

text \<open>
  C7. A successful profile save should replace only \<open>firstName\<close>, \<open>lastName\<close> and
  \<open>email\<close> of the saved record and leave its id, password and creation time, its
  position and every other record as they were. The save finds the record by the first
  match of the user's id. After \<open>twinEvents\<close> Ann and Bob have the same id; Bob, logged
  in, saves his profile unchanged; the save succeeds and overwrites the first record
  with his id, which is Ann's: her record, password included, is replaced by his, and
  his own record stays where it was.
\<close>

theorem save_overwrites_other_record:
  "userDatabase (run twinEvents) = [newUser clock0 formAnn, newUser clock0 formBob] \<and>
   currentUser (run twinEvents) = Some (newUser clock0 formBob) \<and>
   fst (ProfilePage_handleSave (newUser clock0 formBob) editBob (run twinEvents)) =
     Inr (newUser clock0 formBob) \<and>
   userDatabase (run (twinEvents @ [Save editBob])) =
     [newUser clock0 formBob, newUser clock0 formBob] \<and>
   map password (userDatabase (run twinEvents)) = [js ''secret1'', js ''hunter22''] \<and>
   map password (userDatabase (run (twinEvents @ [Save editBob]))) =
     [js ''hunter22'', js ''hunter22'']"
proof -
  have "run (twinEvents @ [Save editBob]) =
      snd (ProfilePage_handleSave (newUser clock0 formBob) editBob (run twinEvents))"
    unfolding run_append by (simp add: run_twinEvents)
  then show ?thesis
    unfolding twin_save by (simp add: run_twinEvents annRecord bobTwinRecord)
qed

text \<open>
  On a store whose ids are pairwise distinct the save of a record of the store does
  what C7 says.
\<close>

lemma update_frame_unique_ids:
  assumes "ProfilePage_handleSave user ed st = (Inr u', st')"
    and "distinct (map uid (userDatabase st))"
    and "user \<in> set (userDatabase st)"
  shows "(let i = nat (findIndex (\<lambda>u. uid u = uid user) (userDatabase st)) in
          i < length (userDatabase st) \<and>
          userDatabase st ! i = user \<and>
          userDatabase st' = (userDatabase st)[i := u'] \<and>
          u' = (userDatabase st ! i)\<lparr>firstName := trim (ed_firstName ed),
                 lastName := trim (ed_lastName ed), email := trim (ed_email ed)\<rparr> \<and>
          uid (userDatabase st' ! i) = uid (userDatabase st ! i) \<and>
          password (userDatabase st' ! i) = password (userDatabase st ! i) \<and>
          memberSince (userDatabase st' ! i) = memberSince (userDatabase st ! i) \<and>
          length (userDatabase st') = length (userDatabase st) \<and>
          (\<forall>j < length (userDatabase st). j \<noteq> i \<longrightarrow> userDatabase st' ! j = userDatabase st ! j) \<and>
          localStorage st' = Some (JSON_stringify (userDatabase st')))"
proof -
  let ?db = "userDatabase st"
  let ?i = "nat (findIndex (\<lambda>u. uid u = uid user) ?db)"
  from find_findIndex [OF find_distinct_key [OF assms(2,3)]]
  have ne: "findIndex (\<lambda>u. uid u = uid user) ?db \<noteq> - 1" and lt: "?i < length ?db"
    and at: "?db ! ?i = user" by simp_all
  note s = handleSave_success [OF assms(1)]
  have t: "trim (ed_email ed) = ed_email ed"
    by (rule validateEmail_trim [OF validateEditForm_email [OF s(1)]])
  from s(5) [OF ne] have db': "userDatabase st' = ?db[?i := u']"
    and ls: "localStorage st' = Some (JSON_stringify (userDatabase st'))" by simp_all
  from s(2) at t have u': "u' = (?db ! ?i)\<lparr>firstName := trim (ed_firstName ed),
      lastName := trim (ed_lastName ed), email := trim (ed_email ed)\<rparr>" by simp
  have fields: "uid u' = uid (?db ! ?i)" "password u' = password (?db ! ?i)"
    "memberSince u' = memberSince (?db ! ?i)"
    unfolding u' by simp_all
  from lt at db' u' fields ls show ?thesis
    unfolding Let_def by simp
qed

section \<open>Email uniqueness\<close>

text \<open>
  C1. From a store whose emails are pairwise distinct, every successful registration
  and every successful profile save should lead to a store whose emails are pairwise
  distinct. The scan of the save leaves out the records that have the user's id, and
  the save writes to the first of them. After \<open>twinEvents\<close> the emails of Ann and Bob
  are distinct and their ids are the same; Bob saves his profile unchanged, the save
  succeeds and writes his record over Ann's, and both records now have his email.
\<close>

theorem save_duplicates_email:
  "map email (userDatabase (run twinEvents)) = [js ''ann@example.com'', js ''bob@example.com''] \<and>
   distinct (map email (userDatabase (run twinEvents))) \<and>
   currentUser (run twinEvents) = Some (newUser clock0 formBob) \<and>
   fst (ProfilePage_handleSave (newUser clock0 formBob) editBob (run twinEvents)) =
     Inr (newUser clock0 formBob) \<and>
   map email (userDatabase
       (snd (ProfilePage_handleSave (newUser clock0 formBob) editBob (run twinEvents)))) =
     [js ''bob@example.com'', js ''bob@example.com''] \<and>
   \<not> distinct (map email (userDatabase
       (snd (ProfilePage_handleSave (newUser clock0 formBob) editBob (run twinEvents)))))"
  unfolding twin_save by (simp add: run_twinEvents annRecord bobTwinRecord sample_strings)

text \<open>
  On a store whose ids are pairwise distinct, registrations and saves of records of the
  store do what C1 says, and the scan of the save never returns the record being
  edited.
\<close>

lemma register_keeps_emails_distinct:
  assumes "RegisterPage_handleSubmit clk fd st = (Inr (), st')"
    and "distinct (map email (userDatabase st))"
  shows "distinct (map email (userDatabase st'))"
proof -
  note r = register_success [OF assms(1)]
  from r(2) have "fd_email fd \<notin> set (map email (userDatabase st))"
    by (auto simp: find_None_conv)
  moreover have "email (newUser clk fd) = fd_email fd"
    using r(5) by (simp add: newUser_def)
  ultimately show ?thesis
    using assms(2) r(3) by simp
qed

lemma save_keeps_emails_distinct:
  assumes ok: "ProfilePage_handleSave user ed st = (Inr u', st')"
    and emails: "distinct (map email (userDatabase st))"
    and ids: "distinct (map uid (userDatabase st))"
    and mem: "user \<in> set (userDatabase st)"
  shows "distinct (map email (userDatabase st'))"
proof -
  let ?db = "userDatabase st"
  let ?i = "nat (findIndex (\<lambda>u. uid u = uid user) ?db)"
  note s = handleSave_success [OF ok]
  from find_findIndex [OF find_distinct_key [OF ids mem]]
  have ne: "findIndex (\<lambda>u. uid u = uid user) ?db \<noteq> - 1" and lt: "?i < length ?db"
    and at: "?db ! ?i = user" by simp_all
  from s(5) [OF ne] have db': "userDatabase st' = ?db[?i := u']" by simp
  from s(2) have eu: "email u' = ed_email ed" by simp
  have new: "map email (userDatabase st') = (map email ?db)[?i := ed_email ed]"
    unfolding db' map_update eu ..
  show ?thesis
  proof (cases "ed_email ed = email user")
    case True
    have "(map email ?db) ! ?i = ed_email ed"
      using lt at True by simp
    then have "(map email ?db)[?i := ed_email ed] = map email ?db"
      by (metis list_update_id)
    with emails new show ?thesis by simp
  next
    case False
    with s(3) have scan: "\<And>u. u \<in> set ?db \<Longrightarrow> email u = ed_email ed \<Longrightarrow> uid u = uid user"
      by blast
    have fresh: "ed_email ed \<notin> set (map email ?db)"
    proof
      assume "ed_email ed \<in> set (map email ?db)"
      then obtain u where u: "u \<in> set ?db" "email u = ed_email ed" by auto
      from scan [OF u] have same: "uid u = uid user" .
      from ids have "inj_on uid (set ?db)" by (simp add: distinct_map)
      from inj_onD [OF this same u(1) mem] have "u = user" .
      with u(2) False show False by simp
    qed
    then have "ed_email ed \<notin> set (map email ?db) - {map email ?db ! ?i}" by simp
    from distinct_list_update [OF emails this] new show ?thesis by simp
  qed
qed

lemma scan_excludes_edited:
  "find (\<lambda>u. email u = ed_email ed \<and> uid u \<noteq> uid user) db \<noteq> Some user"
proof
  assume "find (\<lambda>u. email u = ed_email ed \<and> uid u \<noteq> uid user) db = Some user"
  from find_Some_first [OF this] show False by simp
qed

end
